theory Spec2Isabelle
  imports Complex_Main "HOL-Library.Word"
begin

section \<open>The Adam and AdaMax optimizer of mlpack (adam\_impl.hpp)\<close>

subsection \<open>Scalars: \<open>size_t\<close> and \<open>double\<close>\<close>

text \<open>
  \<open>size_t\<close> is a 64-bit word: \<open>++i\<close> wraps around, and the loop test is \<open>i != maxIterations\<close>.

  A \<open>double\<close> is a finite value, one of the two infinities, or NaN. The special values
  follow IEEE 754: NaN propagates, \<open>inf - inf\<close>, \<open>0 * inf\<close>, \<open>0 / 0\<close> and \<open>inf / inf\<close> are NaN,
  \<open>x / 0\<close> is an infinity for \<open>x \<noteq> 0\<close>, every comparison with NaN is false and \<open>!=\<close> with NaN
  is true. An operation on finite values overflows as in round-to-nearest: its result is an
  infinity when the exact result is \<open>2^1024 - 2^970\<close> or more in magnitude, the least magnitude
  that rounds beyond \<open>DBL_MAX\<close>. Below that the result is the exact one: rounding to 53 bits,
  underflow and the sign of zero are left out (a zero divisor counts as \<open>+0\<close>).
\<close>

type_synonym size_t = "64 word"

datatype double = Finite real | PInf | NInf | NaN

text \<open>
  The result of an operation on finite values whose exact result is \<open>r\<close>, and the infinity (or
  NaN) with the sign of the real number \<open>r\<close>.
\<close>

definition overflows_at :: real where
  "overflows_at = 2 ^ 1024 - 2 ^ 970"

definition overflow :: "real \<Rightarrow> double" where
  "overflow r =
     (if overflows_at \<le> r then PInf else if r \<le> - overflows_at then NInf else Finite r)"

definition inf_of :: "real \<Rightarrow> double" where
  "inf_of r = (if 0 < r then PInf else if r < 0 then NInf else NaN)"

fun sign_of :: "double \<Rightarrow> real" where
  "sign_of (Finite a) = sgn a"
| "sign_of PInf = 1"
| "sign_of NInf = - 1"
| "sign_of NaN = 0"

instantiation double :: "{plus, uminus, minus, times, inverse, ord}"
begin

fun plus_double :: "double \<Rightarrow> double \<Rightarrow> double" where
  "plus_double NaN y = NaN"
| "plus_double x NaN = NaN"
| "plus_double (Finite a) (Finite b) = overflow (a + b)"
| "plus_double PInf NInf = NaN"
| "plus_double NInf PInf = NaN"
| "plus_double PInf y = PInf"
| "plus_double NInf y = NInf"
| "plus_double (Finite a) y = y"

fun uminus_double :: "double \<Rightarrow> double" where
  "uminus_double (Finite a) = Finite (- a)"
| "uminus_double PInf = NInf"
| "uminus_double NInf = PInf"
| "uminus_double NaN = NaN"

definition minus_double :: "double \<Rightarrow> double \<Rightarrow> double" where
  "minus_double x y = x + (- y)"

fun times_double :: "double \<Rightarrow> double \<Rightarrow> double" where
  "times_double NaN y = NaN"
| "times_double x NaN = NaN"
| "times_double (Finite a) (Finite b) = overflow (a * b)"
| "times_double x y = inf_of (sign_of x * sign_of y)"

fun divide_double :: "double \<Rightarrow> double \<Rightarrow> double" where
  "divide_double NaN y = NaN"
| "divide_double x NaN = NaN"
| "divide_double (Finite a) (Finite b) = (if b = 0 then inf_of a else overflow (a / b))"
| "divide_double (Finite a) y = Finite 0"
| "divide_double x (Finite b) = inf_of (sign_of x * (if b < 0 then - 1 else 1))"
| "divide_double x y = NaN"

definition inverse_double :: "double \<Rightarrow> double" where
  "inverse_double x = divide (Finite 1) x"

fun less_double :: "double \<Rightarrow> double \<Rightarrow> bool" where
  "less_double NaN y = False"
| "less_double x NaN = False"
| "less_double (Finite a) (Finite b) = (a < b)"
| "less_double x NInf = False"
| "less_double PInf y = False"
| "less_double x y = True"

fun less_eq_double :: "double \<Rightarrow> double \<Rightarrow> bool" where
  "less_eq_double NaN y = False"
| "less_eq_double x NaN = False"
| "less_eq_double (Finite a) (Finite b) = (a \<le> b)"
| "less_eq_double NInf y = True"
| "less_eq_double x PInf = True"
| "less_eq_double x y = False"

instance ..

end

text \<open>\<open>a != b\<close> on doubles.\<close>

definition dneq :: "double \<Rightarrow> double \<Rightarrow> bool" where
  "dneq x y = (x = NaN \<or> y = NaN \<or> x \<noteq> y)"

text \<open>\<open>std::isnan\<close>, \<open>std::isinf\<close>, \<open>std::abs\<close>, \<open>std::sqrt\<close>.\<close>

definition isnan :: "double \<Rightarrow> bool" where
  "isnan x = (x = NaN)"

definition isinf :: "double \<Rightarrow> bool" where
  "isinf x = (x = PInf \<or> x = NInf)"

fun dabs :: "double \<Rightarrow> double" where
  "dabs (Finite a) = Finite \<bar>a\<bar>"
| "dabs PInf = PInf"
| "dabs NInf = PInf"
| "dabs NaN = NaN"

fun dsqrt :: "double \<Rightarrow> double" where
  "dsqrt (Finite a) = (if a < 0 then NaN else Finite (sqrt a))"
| "dsqrt PInf = PInf"
| "dsqrt NInf = NaN"
| "dsqrt NaN = NaN"

text \<open>
  \<open>std::pow(x, (double) i)\<close> for a \<open>size_t\<close> \<open>i\<close>: the exponent is a non-negative integer, and
  \<open>pow(x, 0)\<close> is 1 for every \<open>x\<close>, NaN included.
\<close>

definition pow_nat :: "double \<Rightarrow> nat \<Rightarrow> double" where
  "pow_nat x n =
     (if n = 0 then Finite 1
      else case x of
             Finite a \<Rightarrow> overflow (a ^ n)
           | PInf \<Rightarrow> PInf
           | NInf \<Rightarrow> (if odd n then NInf else PInf)
           | NaN \<Rightarrow> NaN)"

definition pow :: "double \<Rightarrow> size_t \<Rightarrow> double" where
  "pow x i = pow_nat x (unat i)"

text \<open>\<open>std::max(a, b)\<close> is \<open>(a < b) ? b : a\<close>; \<open>arma::max\<close> applies it entrywise.\<close>

definition dmax :: "double \<Rightarrow> double \<Rightarrow> double" where
  "dmax a b = (if a < b then b else a)"

text \<open>\<open>DBL_MAX\<close>, the largest finite double: \<open>(2^53 - 1) * 2^971\<close>.\<close>

definition DBL_MAX :: double where
  "DBL_MAX = Finite ((2 ^ 53 - 1) * 2 ^ 971)"

subsection \<open>Matrices, the objective function and the optimizer's fields\<close>

text \<open>
  An \<open>arma::mat\<close> is the list of its entries: the shape is fixed during a call and every
  operation of the optimizer is entrywise. \<open>arma::zeros\<close> is a list of zeros.
\<close>

type_synonym mat = "double list"

definition zeros :: "nat \<Rightarrow> mat" where
  "zeros n = replicate n (Finite 0)"

text \<open>
  The entrywise operations of Armadillo that \<open>Optimize\<close> uses: matrix with scalar
  (\<open>A * k\<close>, \<open>k * A\<close> and \<open>A *= k\<close> multiply each entry by \<open>k\<close> on the right; \<open>A + k\<close>), matrix with
  matrix (\<open>A + B\<close>, \<open>A - B\<close>, the Schur product \<open>A % B\<close>, \<open>A / B\<close>, \<open>arma::max(A, B)\<close>) and
  \<open>arma::abs\<close>, \<open>arma::sqrt\<close>.
\<close>

definition mat_times :: "mat \<Rightarrow> double \<Rightarrow> mat" where
  "mat_times A k = map (\<lambda>a. a * k) A"

definition mat_plus_scalar :: "mat \<Rightarrow> double \<Rightarrow> mat" where
  "mat_plus_scalar A k = map (\<lambda>a. a + k) A"

definition mat_plus :: "mat \<Rightarrow> mat \<Rightarrow> mat" where
  "mat_plus A B = map2 (+) A B"

definition mat_minus :: "mat \<Rightarrow> mat \<Rightarrow> mat" where
  "mat_minus A B = map2 (-) A B"

definition mat_schur :: "mat \<Rightarrow> mat \<Rightarrow> mat" where
  "mat_schur A B = map2 (*) A B"

definition mat_div :: "mat \<Rightarrow> mat \<Rightarrow> mat" where
  "mat_div A B = map2 (/) A B"

definition mat_max :: "mat \<Rightarrow> mat \<Rightarrow> mat" where
  "mat_max A B = map2 dmax A B"

definition mat_abs :: "mat \<Rightarrow> mat" where
  "mat_abs A = map dabs A"

definition mat_sqrt :: "mat \<Rightarrow> mat" where
  "mat_sqrt A = map dsqrt A"

text \<open>
  The \<open>DecomposableFunctionType\<close>: \<open>NumFunctions()\<close>, \<open>Evaluate(iterate, i)\<close> and
  \<open>Gradient(iterate, i, gradient)\<close>, whose output parameter is the result here.
\<close>

record objective =
  NumFunctions :: size_t
  Evaluate :: "mat \<Rightarrow> size_t \<Rightarrow> double"
  Gradient :: "mat \<Rightarrow> size_t \<Rightarrow> mat"

text \<open>The members of class \<open>Adam\<close> set by the constructor.\<close>

record adam =
  stepSize :: double
  beta1 :: double
  beta2 :: double
  eps :: double
  maxIterations :: size_t
  tolerance :: double
  shuffle :: bool
  adaMax :: bool

text \<open>
  One entry of the log of calls to the objective: the loop counter \<open>i\<close> of the iteration, the
  term index passed to \<open>Gradient\<close> and then to \<open>Evaluate\<close>, and the iterate as it stood at that
  \<open>Evaluate\<close> call.
\<close>

record call =
  counter :: size_t
  index :: size_t
  evaluated_at :: mat

text \<open>
  The local variables of \<open>Optimize\<close>. \<open>draws\<close> counts the calls of \<open>arma::shuffle\<close> made so far
  and \<open>calls\<close> is the log of calls to the objective made by the loop; neither is read by the
  program. The gradient buffer is written by \<open>Gradient\<close> before each use and is local to an
  iteration here.
\<close>

record state =
  iterate :: mat
  m :: mat
  u :: mat
  v :: mat
  visitationOrder :: "size_t list"
  currentFunction :: size_t
  overallObjective :: double
  lastObjective :: double
  draws :: nat
  calls :: "call list"

text \<open>The three \<open>return\<close> statements of \<open>Optimize\<close>, named after their log messages.\<close>

datatype reason = Diverged | Converged | IterationLimit

text \<open>
  What C++ leaves undefined or what Armadillo rejects: \<open>%\<close> by zero when the objective has no
  terms, an index outside \<open>visitationOrder\<close>, and a gradient whose shape is not the iterate's.
\<close>

datatype fault = ModuloByZero | IndexOutOfBounds | ShapeMismatch

datatype outcome = Returned reason double | Faulted fault

subsection \<open>\<open>Optimize\<close>\<close>

text \<open>The two loops \<open>for (i = 0; i < numFunctions; ++i) overallObjective += Evaluate(iterate, i)\<close>.\<close>

definition full_objective :: "objective \<Rightarrow> mat \<Rightarrow> double" where
  "full_objective fn x =
     foldl (\<lambda>acc j. acc + Evaluate fn x (of_nat j)) (Finite 0) [0..<unat (NumFunctions fn)]"

text \<open>
  \<open>arma::linspace<arma::Col<size_t>>(0, numFunctions - 1, numFunctions)\<close>. The random
  permutations come from outside: \<open>rnd k\<close> is what the \<open>k\<close>-th call of \<open>arma::shuffle\<close> does.
\<close>

definition linspace :: "size_t \<Rightarrow> size_t list" where
  "linspace n = map of_nat [0..<unat n]"

text \<open>Lines 50 to 86: the state on entry to the main loop.\<close>

definition initial :: "(nat \<Rightarrow> size_t list \<Rightarrow> size_t list) \<Rightarrow> adam \<Rightarrow> objective \<Rightarrow> mat \<Rightarrow> state" where
  "initial rnd opt fn x =
     \<lparr> iterate = x,
       m = zeros (length x),
       u = (if adaMax opt then zeros (length x) else []),
       v = (if adaMax opt then [] else zeros (length x)),
       visitationOrder = (if shuffle opt then rnd 0 (linspace (NumFunctions fn)) else []),
       currentFunction = 0,
       overallObjective = full_objective fn x,
       lastObjective = DBL_MAX,
       draws = (if shuffle opt then 1 else 0),
       calls = [] \<rparr>"

text \<open>
  Lines 93 to 118, the start of a sequence: return on a NaN or infinite objective, return
  within tolerance, or reset the counters and redraw the order of visitation.
\<close>

definition epoch_start ::
  "(nat \<Rightarrow> size_t list \<Rightarrow> size_t list) \<Rightarrow> adam \<Rightarrow> state \<Rightarrow> (outcome \<times> state) + state" where
  "epoch_start rnd opt s =
     (if isnan (overallObjective s) \<or> isinf (overallObjective s)
      then Inl (Returned Diverged (overallObjective s), s)
      else if dabs (lastObjective s - overallObjective s) < tolerance opt
      then Inl (Returned Converged (overallObjective s), s)
      else Inr (s\<lparr> lastObjective := overallObjective s,
                  overallObjective := Finite 0,
                  currentFunction := 0,
                  visitationOrder :=
                    (if shuffle opt then rnd (draws s) (visitationOrder s) else visitationOrder s),
                  draws := (if shuffle opt then Suc (draws s) else draws s) \<rparr>))"

text \<open>Lines 122 to 125 and 163 to 167: the term of the objective that an iteration works on.\<close>

definition selected :: "adam \<Rightarrow> state \<Rightarrow> size_t" where
  "selected opt s =
     (if shuffle opt then visitationOrder s ! unat (currentFunction s) else currentFunction s)"

text \<open>
  Lines 121 to 167: the gradient of the selected term, the moment estimates, the bias
  corrections, the update of the iterate and the term value added to the objective.
\<close>

definition update :: "adam \<Rightarrow> objective \<Rightarrow> size_t \<Rightarrow> state \<Rightarrow> fault + state" where
  "update opt fn i s =
     (if shuffle opt \<and> length (visitationOrder s) \<le> unat (currentFunction s)
      then Inl IndexOutOfBounds
      else
        let g = Gradient fn (iterate s) (selected opt s)
        in if length g \<noteq> length (iterate s) then Inl ShapeMismatch
      else
        let m' = mat_plus (mat_times (m s) (beta1 opt)) (mat_times g (Finite 1 - beta1 opt));
            u' = (if adaMax opt
                  then mat_max (mat_times (u s) (beta2 opt)) (mat_abs g)
                  else u s);
            v' = (if adaMax opt then v s
                  else mat_plus (mat_times (v s) (beta2 opt))
                                (mat_times (mat_schur g g) (Finite 1 - beta2 opt)));
            biasCorrection1 = Finite 1 - pow (beta1 opt) i;
            biasCorrection2 = Finite 1 - pow (beta2 opt) i;
            x' = (if adaMax opt
                  then (if dneq biasCorrection1 (Finite 0)
                        then mat_minus (iterate s)
                               (mat_div (mat_times m' (stepSize opt / biasCorrection1))
                                        (mat_plus_scalar u' (eps opt)))
                        else iterate s)
                  else mat_minus (iterate s)
                         (mat_div (mat_times m' (stepSize opt * dsqrt biasCorrection2 / biasCorrection1))
                                  (mat_plus_scalar (mat_sqrt v') (eps opt))))
        in Inr (s\<lparr> iterate := x', m := m', u := u', v := v',
                    overallObjective := overallObjective s + Evaluate fn x' (selected opt s),
                    calls := calls s @ [\<lparr> counter = i, index = selected opt s, evaluated_at = x' \<rparr>] \<rparr>))"

text \<open>The body of the main loop, lines 90 to 167.\<close>

definition body ::
  "(nat \<Rightarrow> size_t list \<Rightarrow> size_t list) \<Rightarrow> adam \<Rightarrow> objective \<Rightarrow> size_t \<Rightarrow> state
     \<Rightarrow> (outcome \<times> state) + state" where
  "body rnd opt fn i s =
     (if NumFunctions fn = 0 then Inl (Faulted ModuloByZero, s)
      else
        case (if currentFunction s mod NumFunctions fn = 0 then epoch_start rnd opt s else Inr s) of
          Inl r \<Rightarrow> Inl r
        | Inr s1 \<Rightarrow>
            (case update opt fn i s1 of
               Inl e \<Rightarrow> Inl (Faulted e, s1)
             | Inr s2 \<Rightarrow> Inr s2))"

text \<open>
  The main loop \<open>for (size_t i = 1; i != maxIterations; ++i, ++currentFunction)\<close> and the final
  objective of lines 173 to 176.
\<close>

function loop ::
  "(nat \<Rightarrow> size_t list \<Rightarrow> size_t list) \<Rightarrow> adam \<Rightarrow> objective \<Rightarrow> size_t \<Rightarrow> state
     \<Rightarrow> outcome \<times> state" where
  "loop rnd opt fn i s =
     (if i = maxIterations opt
      then (Returned IterationLimit (full_objective fn (iterate s)),
            s\<lparr> overallObjective := full_objective fn (iterate s) \<rparr>)
      else
        case body rnd opt fn i s of
          Inl r \<Rightarrow> r
        | Inr s' \<Rightarrow> loop rnd opt fn (i + 1) (s'\<lparr> currentFunction := currentFunction s' + 1 \<rparr>))"
  by pat_completeness auto
termination
proof (relation "measure (\<lambda>(rnd, opt, fn, i, s). unat (maxIterations opt - i))")
  show "wf (measure (\<lambda>(rnd, opt, fn, i, s). unat (maxIterations opt - i)))"
    by simp
next
  fix rnd :: "nat \<Rightarrow> size_t list \<Rightarrow> size_t list" and opt :: "'a adam_scheme"
    and fn :: "'b objective_scheme" and i :: size_t and s :: "'c state_scheme" and s' :: "'c state_scheme"
  assume ne: "i \<noteq> maxIterations opt"
  have nz: "maxIterations opt - i \<noteq> 0"
    using ne by simp
  have eq: "maxIterations opt - (i + 1) = (maxIterations opt - i) - 1"
    by simp
  have "unat ((maxIterations opt - i) - 1) < unat (maxIterations opt - i)"
    using nz by (simp add: unat_minus_one unat_gt_0 word_neq_0_conv)
  then have "unat (maxIterations opt - (i + 1)) < unat (maxIterations opt - i)"
    by (simp only: eq)
  then show "((rnd, opt, fn, i + 1, s'\<lparr>currentFunction := currentFunction s' + 1\<rparr>), (rnd, opt, fn, i, s))
      \<in> measure (\<lambda>(rnd, opt, fn, i, s). unat (maxIterations opt - i))"
    by simp
qed

declare loop.simps [simp del]

definition Optimize ::
  "(nat \<Rightarrow> size_t list \<Rightarrow> size_t list) \<Rightarrow> adam \<Rightarrow> objective \<Rightarrow> mat \<Rightarrow> outcome \<times> state" where
  "Optimize rnd opt fn x = loop rnd opt fn 1 (initial rnd opt fn x)"

subsection \<open>Notions used in the statements\<close>

text \<open>\<open>std::isfinite\<close>, and a value that is not negative: a finite one or \<open>+inf\<close>.\<close>

definition is_finite :: "double \<Rightarrow> bool" where
  "is_finite x \<longleftrightarrow> \<not> isnan x \<and> \<not> isinf x"


text \<open>
  The sum that the loop accumulates over logged steps: each step adds the value of its term at
  the iterate the step has just updated, starting from zero. \<open>last_calls k s\<close> are the last \<open>k\<close>
  steps in the log of \<open>s\<close>.
\<close>

definition interleaved_sum :: "objective \<Rightarrow> call list \<Rightarrow> double" where
  "interleaved_sum fn cs =
     foldl (\<lambda>acc c. acc + Evaluate fn (evaluated_at c) (index c)) (Finite 0) cs"

definition last_calls :: "nat \<Rightarrow> state \<Rightarrow> call list" where
  "last_calls k s = drop (length (calls s) - k) (calls s)"

subsection \<open>Invariants of the loop\<close>

text \<open>
  Without shuffling, the terms are logged in the order 0, 1, ..., \<open>NumFunctions - 1\<close>, again
  and again, and \<open>currentFunction\<close> is the position in that cycle.
\<close>

definition in_order :: "objective \<Rightarrow> state \<Rightarrow> bool" where
  "in_order fn s \<longleftrightarrow>
     map index (calls s) =
       map (\<lambda>k. of_nat (k mod unat (NumFunctions fn))) [0..<length (calls s)] \<and>
     unat (currentFunction s) \<le> unat (NumFunctions fn) \<and>
     length (calls s) mod unat (NumFunctions fn) = unat (currentFunction s) mod unat (NumFunctions fn)"

text \<open>
  Either the loop is in the state \<open>s0\<close> it was entered with, or \<open>currentFunction\<close> steps of the
  current epoch are done and \<open>overallObjective\<close> is the sum accumulated over them.
\<close>

definition in_epoch :: "objective \<Rightarrow> state \<Rightarrow> state \<Rightarrow> bool" where
  "in_epoch fn s0 s \<longleftrightarrow>
     s = s0 \<or>
     1 \<le> unat (currentFunction s) \<and>
     unat (currentFunction s) \<le> unat (NumFunctions fn) \<and>
     unat (currentFunction s) \<le> length (calls s) \<and>
     overallObjective s = interleaved_sum fn (last_calls (unat (currentFunction s)) s)"

subsection \<open>Concrete inputs\<close>

text \<open>
  Without shuffling the random permutations are never asked for. The objective
  \<open>f(x) = (x\<^sub>1 - 3)^2 + ... + (x\<^sub>n - 3)^2\<close> has one term, with gradient \<open>2 (x - 3)\<close>.
\<close>

definition no_shuffle :: "nat \<Rightarrow> size_t list \<Rightarrow> size_t list" where
  "no_shuffle k xs = xs"

definition square_fn :: objective where
  "square_fn =
     \<lparr> NumFunctions = 1,
       Evaluate = (\<lambda>x j. foldl (\<lambda>acc a. acc + (a - Finite 3) * (a - Finite 3)) (Finite 0) x),
       Gradient = (\<lambda>x j. map (\<lambda>a. Finite 2 * (a - Finite 3)) x) \<rparr>"

text \<open>An Adam configuration, and the state after its first update from \<open>x = 0\<close>.\<close>

definition adam_cfg :: adam where
  "adam_cfg =
     \<lparr> stepSize = Finite 1, beta1 = Finite (1 / 2), beta2 = Finite (3 / 4), eps = Finite 1,
       maxIterations = 2, tolerance = Finite 0, shuffle = False, adaMax = False \<rparr>"


text \<open>
  An AdaMax configuration and the state after its first update from \<open>x = 0\<close>; the same with
  \<open>beta1 = 1\<close>, where the first bias correction is zero.
\<close>

definition adamax_cfg :: adam where
  "adamax_cfg =
     \<lparr> stepSize = Finite 1, beta1 = Finite (1 / 2), beta2 = Finite (1 / 2), eps = Finite 1,
       maxIterations = 2, tolerance = Finite 0, shuffle = False, adaMax = True \<rparr>"




text \<open>
  \<open>f(x) = 1/x + 1/x\<close> in two terms, each with gradient \<open>-1/x^2\<close>, and an AdaMax
  configuration that takes the iterate from \<open>-1\<close> to \<open>0\<close> in one step: the states after the
  first and after the second step.
\<close>

definition recip_fn :: objective where
  "recip_fn =
     \<lparr> NumFunctions = 2,
       Evaluate = (\<lambda>x j. Finite 1 / x ! 0),
       Gradient = (\<lambda>x j. [Finite (- 1) / (x ! 0 * x ! 0)]) \<rparr>"

definition recip_cfg :: adam where
  "recip_cfg =
     \<lparr> stepSize = Finite 2, beta1 = Finite (1 / 2), beta2 = Finite (1 / 2), eps = Finite 1,
       maxIterations = 10, tolerance = Finite 0, shuffle = False, adaMax = True \<rparr>"

definition recip_mid :: state where
  "recip_mid =
     \<lparr> iterate = [Finite 0], m = [Finite (- (1 / 2))], u = [Finite 1], v = [],
       visitationOrder = [], currentFunction = 1, overallObjective = PInf,
       lastObjective = Finite (- 2), draws = 0,
       calls = [\<lparr> counter = 1, index = 0, evaluated_at = [Finite 0] \<rparr>] \<rparr>"

definition recip_after_two :: state where
  "recip_after_two =
     \<lparr> iterate = [NaN], m = [NInf], u = [PInf], v = [],
       visitationOrder = [], currentFunction = 1, overallObjective = NaN,
       lastObjective = Finite (- 2), draws = 0,
       calls = [\<lparr> counter = 1, index = 0, evaluated_at = [Finite 0] \<rparr>,
                \<lparr> counter = 2, index = 1, evaluated_at = [NaN] \<rparr>] \<rparr>"

definition recip_end :: state where
  "recip_end = recip_after_two \<lparr> currentFunction := 2 \<rparr>"


text \<open>
  \<open>f(x) = x + 0\<close> in two terms, with the AdaMax state after the first step and after the second.
\<close>

definition two_term_fn :: objective where
  "two_term_fn =
     \<lparr> NumFunctions = 2,
       Evaluate = (\<lambda>x j. if j = 0 then x ! 0 else Finite 0),
       Gradient = (\<lambda>x j. if j = 0 then [Finite 1] else [Finite 0]) \<rparr>"

definition decay_before :: state where
  "decay_before =
     \<lparr> iterate = [Finite (- (1 / 2))], m = [Finite (1 / 2)], u = [Finite 1], v = [],
       visitationOrder = [], currentFunction = 1, overallObjective = Finite (- (1 / 2)),
       lastObjective = Finite 0, draws = 0,
       calls = [\<lparr> counter = 1, index = 0, evaluated_at = [Finite (- (1 / 2))] \<rparr>] \<rparr>"

definition decay_after :: state where
  "decay_after =
     \<lparr> iterate = [Finite (- (13 / 18))], m = [Finite (1 / 4)], u = [Finite (1 / 2)], v = [],
       visitationOrder = [], currentFunction = 1, overallObjective = Finite (- (1 / 2)),
       lastObjective = Finite 0, draws = 0,
       calls = [\<lparr> counter = 1, index = 0, evaluated_at = [Finite (- (1 / 2))] \<rparr>,
                \<lparr> counter = 2, index = 1, evaluated_at = [Finite (- (13 / 18))] \<rparr>] \<rparr>"

text \<open>Five terms \<open>f\<^sub>j(x) = j (x\<^sub>1 + ... + x\<^sub>n)\<close>, visited for two epochs.\<close>

definition five_fn :: objective where
  "five_fn =
     \<lparr> NumFunctions = 5,
       Evaluate = (\<lambda>x j. foldl (\<lambda>acc a. acc + Finite (real (unat j)) * a) (Finite 0) x),
       Gradient = (\<lambda>x j. map (\<lambda>a. Finite (real (unat j))) x) \<rparr>"

definition five_cfg :: adam where
  "five_cfg =
     \<lparr> stepSize = Finite 1, beta1 = Finite (1 / 2), beta2 = Finite (1 / 2), eps = Finite 1,
       maxIterations = 11, tolerance = Finite 0, shuffle = False, adaMax = True \<rparr>"

text \<open>
  Starting at the minimum \<open>x = 3\<close> of \<open>(x - 3)^2\<close> with a positive tolerance: the state at the
  second check. And an infinite tolerance.
\<close>

definition tolerant_cfg :: adam where
  "tolerant_cfg =
     \<lparr> stepSize = Finite 1, beta1 = Finite (1 / 2), beta2 = Finite (1 / 2), eps = Finite 1,
       maxIterations = 100, tolerance = Finite (1 / 1000), shuffle = False, adaMax = True \<rparr>"

definition at_minimum :: state where
  "at_minimum =
     \<lparr> iterate = [Finite 3], m = [Finite 0], u = [Finite 0], v = [],
       visitationOrder = [], currentFunction = 1, overallObjective = Finite 0,
       lastObjective = Finite 0, draws = 0,
       calls = [\<lparr> counter = 1, index = 0, evaluated_at = [Finite 3] \<rparr>] \<rparr>"


text \<open>The state in which the Adam run of one step on \<open>(x - 3)^2\<close> ends.\<close>

definition adam_end :: state where
  "adam_end =
     \<lparr> iterate = [Finite (3 / 4)], m = [Finite (- 3)], u = [], v = [Finite 9],
       visitationOrder = [], currentFunction = 1, overallObjective = Finite (81 / 16),
       lastObjective = Finite 9, draws = 0,
       calls = [\<lparr> counter = 1, index = 0, evaluated_at = [Finite (3 / 4)] \<rparr>] \<rparr>"







subsection \<open>Overflow\<close>

lemma overflow_small [simp]: "\<bar>r\<bar> \<le> 2 ^ 64 \<Longrightarrow> overflow r = Finite r"
proof -
  have "(2 :: real) ^ 64 < 2 ^ 1024 - 2 ^ 970"
    by simp
  then show "\<bar>r\<bar> \<le> 2 ^ 64 \<Longrightarrow> overflow r = Finite r"
    by (auto simp: overflow_def overflows_at_def)
qed

lemma overflows_at_pos: "0 < overflows_at"
  by (simp add: overflows_at_def)

lemma near_DBL_MAX:
  assumes "\<bar>a\<bar> \<le> 2 ^ 64"
  shows "DBL_MAX + Finite a = Finite ((2 ^ 53 - 1) * 2 ^ 971 + a)"
proof -
  have "(2 ^ 53 - 1) * 2 ^ 971 + (2 :: real) ^ 64 < 2 ^ 1024 - 2 ^ 970"
    by simp
  moreover have "0 < (2 ^ 53 - 1) * 2 ^ 971 - (2 :: real) ^ 64"
    by simp
  ultimately show ?thesis
    using assms overflows_at_pos by (auto simp: DBL_MAX_def overflow_def overflows_at_def)
qed


subsection \<open>Unfolding the loop, and a rule for its invariants\<close>

lemma loop_limit:
  "loop rnd opt fn (maxIterations opt) s =
     (Returned IterationLimit (full_objective fn (iterate s)),
      s\<lparr>overallObjective := full_objective fn (iterate s)\<rparr>)"
  by (subst loop.simps) simp

lemma loop_early:
  "i \<noteq> maxIterations opt \<Longrightarrow> body rnd opt fn i s = Inl r \<Longrightarrow> loop rnd opt fn i s = r"
  by (subst loop.simps) simp

lemma loop_continue:
  "i \<noteq> maxIterations opt \<Longrightarrow> body rnd opt fn i s = Inr s' \<Longrightarrow>
   loop rnd opt fn i s = loop rnd opt fn (i + 1) (s'\<lparr>currentFunction := currentFunction s' + 1\<rparr>)"
  by (subst loop.simps) simp

lemma loop_rule:
  assumes init: "I i s"
    and step: "\<And>i s s'. I i s \<Longrightarrow> i \<noteq> maxIterations opt \<Longrightarrow> body rnd opt fn i s = Inr s'
                 \<Longrightarrow> I (i + 1) (s'\<lparr>currentFunction := currentFunction s' + 1\<rparr>)"
    and limit: "\<And>i s. I i s \<Longrightarrow> i = maxIterations opt
                 \<Longrightarrow> Q (Returned IterationLimit (full_objective fn (iterate s)),
                        s\<lparr>overallObjective := full_objective fn (iterate s)\<rparr>)"
    and early: "\<And>i s r. I i s \<Longrightarrow> i \<noteq> maxIterations opt \<Longrightarrow> body rnd opt fn i s = Inl r \<Longrightarrow> Q r"
  shows "Q (loop rnd opt fn i s)"
proof -
  have "rnd' = rnd \<longrightarrow> opt' = opt \<longrightarrow> fn' = fn \<longrightarrow> I j t \<longrightarrow> Q (loop rnd' opt' fn' j t)"
    for rnd' opt' fn' j t
  proof (induction rnd' opt' fn' j t rule: loop.induct)
    case (1 rnd' opt' fn' j t)
    show ?case
    proof (intro impI)
      assume eqs: "rnd' = rnd" "opt' = opt" "fn' = fn" and inv: "I j t"
      show "Q (loop rnd' opt' fn' j t)"
      proof (cases "j = maxIterations opt")
        case True
        show ?thesis
          using limit [OF inv True] unfolding eqs True loop_limit .
      next
        case ne: False
        show ?thesis
        proof (cases "body rnd opt fn j t")
          case (Inl r)
          then show ?thesis
            using early [OF inv ne Inl] by (simp add: eqs loop_early [OF ne Inl])
        next
          case (Inr t')
          have "I (j + 1) (t'\<lparr>currentFunction := currentFunction t' + 1\<rparr>)"
            using step [OF inv ne Inr] .
          then have "Q (loop rnd opt fn (j + 1) (t'\<lparr>currentFunction := currentFunction t' + 1\<rparr>))"
            using "1.IH" [of t'] ne Inr by (simp add: eqs)
          then show ?thesis
            by (simp add: eqs loop_continue [OF ne Inr])
        qed
      qed
    qed
  qed
  then show ?thesis
    using init by simp
qed


lemma update_frame:
  assumes "update opt fn i s = Inr s'"
  shows "calls s' = calls s @ [\<lparr>counter = i, index = selected opt s, evaluated_at = iterate s'\<rparr>]"
    and "currentFunction s' = currentFunction s"
    and "lastObjective s' = lastObjective s"
    and "visitationOrder s' = visitationOrder s"
    and "draws s' = draws s"
    and "overallObjective s' = overallObjective s + Evaluate fn (iterate s') (selected opt s)"
  using assms by (auto simp: update_def Let_def split: if_splits)

lemma epoch_start_Inr:
  assumes "epoch_start rnd opt s = Inr s1"
  shows "calls s1 = calls s" and "currentFunction s1 = 0" and "overallObjective s1 = Finite 0"
    and "lastObjective s1 = overallObjective s" and "iterate s1 = iterate s"
    and "m s1 = m s" and "u s1 = u s" and "v s1 = v s"
    and "\<not> shuffle opt \<Longrightarrow> visitationOrder s1 = visitationOrder s"
    and "\<not> isnan (overallObjective s)" and "\<not> isinf (overallObjective s)"
    and "\<not> dabs (lastObjective s - overallObjective s) < tolerance opt"
  using assms by (auto simp: epoch_start_def split: if_splits)

lemma epoch_start_Inl:
  assumes "epoch_start rnd opt s = Inl r"
  shows "snd r = s"
    and "fst r = Returned Diverged (overallObjective s) \<or> fst r = Returned Converged (overallObjective s)"
    and "fst r = Returned Diverged (overallObjective s)
           \<longleftrightarrow> isnan (overallObjective s) \<or> isinf (overallObjective s)"
  using assms by (auto simp: epoch_start_def split: if_splits)

lemma body_Inl:
  assumes "body rnd opt fn i s = Inl r"
  shows "calls (snd r) = calls s" and "iterate (snd r) = iterate s"
  using assms
  by (auto simp: body_def epoch_start_def split: if_splits sum.splits)

subsection \<open>The matrix expressions of an update, entry by entry\<close>

lemma double_mult_commute: "(a::double) * b = b * a"
  by (cases a; cases b) (simp_all add: mult.commute)

lemma first_moment_eq:
  "mat_plus (mat_times A k) (mat_times G (Finite 1 - k)) =
     map2 (\<lambda>a b. k * a + (Finite 1 - k) * b) A G"
  by (simp add: mat_plus_def mat_times_def zip_map_map split_def
        double_mult_commute [of _ k] double_mult_commute [of _ "Finite 1 - k"])





lemma dneq_zero: "dneq x (Finite 0) \<longleftrightarrow> x \<noteq> Finite 0"
  by (auto simp: dneq_def)

lemma update_Inr:
  assumes "update opt fn t s = Inr s'"
  shows "length (Gradient fn (iterate s) (selected opt s)) = length (iterate s)"
    and "m s' = mat_plus (mat_times (m s) (beta1 opt))
                  (mat_times (Gradient fn (iterate s) (selected opt s)) (Finite 1 - beta1 opt))"
    and "adaMax opt \<Longrightarrow> u s' = mat_max (mat_times (u s) (beta2 opt))
                                   (mat_abs (Gradient fn (iterate s) (selected opt s)))"
    and "adaMax opt \<Longrightarrow> v s' = v s"
    and "\<not> adaMax opt \<Longrightarrow> u s' = u s"
    and "\<not> adaMax opt \<Longrightarrow> v s' = mat_plus (mat_times (v s) (beta2 opt))
            (mat_times (mat_schur (Gradient fn (iterate s) (selected opt s))
                                  (Gradient fn (iterate s) (selected opt s))) (Finite 1 - beta2 opt))"
    and "adaMax opt \<Longrightarrow> Finite 1 - pow (beta1 opt) t \<noteq> Finite 0 \<Longrightarrow>
           iterate s' = mat_minus (iterate s)
              (mat_div (mat_times (m s') (stepSize opt / (Finite 1 - pow (beta1 opt) t)))
                       (mat_plus_scalar (u s') (eps opt)))"
    and "adaMax opt \<Longrightarrow> Finite 1 - pow (beta1 opt) t = Finite 0 \<Longrightarrow> iterate s' = iterate s"
    and "\<not> adaMax opt \<Longrightarrow>
           iterate s' = mat_minus (iterate s)
              (mat_div (mat_times (m s') (stepSize opt * dsqrt (Finite 1 - pow (beta2 opt) t)
                                            / (Finite 1 - pow (beta1 opt) t)))
                       (mat_plus_scalar (mat_sqrt (v s')) (eps opt)))"
  using assms by (auto simp: update_def Let_def dneq_zero split: if_splits)

subsection \<open>Words, and the two ways through the loop body\<close>

lemma unat_succ_less:
  fixes a b :: size_t
  assumes "unat a < unat b"
  shows "unat (a + 1) = Suc (unat a)"
proof -
  have "unat b < 2 ^ 64"
    using unsigned_less [of b, where 'a = nat] by simp
  then have "unat a + unat (1 :: size_t) < 2 ^ LENGTH(64)"
    using assms by simp
  then have "unat (a + 1) = unat a + unat (1 :: size_t)"
    by (simp only: unat_add_lem [THEN iffD1])
  then show ?thesis by simp
qed

lemma mod_zero_unat:
  fixes a b :: size_t
  shows "a mod b = 0 \<longleftrightarrow> unat a mod unat b = 0"
  by (metis unat_mod unat_eq_zero)

lemma body_Inr_cases:
  assumes "body rnd opt fn i s = Inr s'"
  obtains (boundary) s1 where "NumFunctions fn \<noteq> 0" and "currentFunction s mod NumFunctions fn = 0"
      and "epoch_start rnd opt s = Inr s1" and "update opt fn i s1 = Inr s'"
    | (inside) "NumFunctions fn \<noteq> 0" and "currentFunction s mod NumFunctions fn \<noteq> 0"
      and "update opt fn i s = Inr s'"
  using assms by (auto simp: body_def split: if_splits sum.splits)

lemma body_Inr_calls:
  assumes "body rnd opt fn i s = Inr s'"
  shows "\<exists>j. calls s' = calls s @ [\<lparr>counter = i, index = j, evaluated_at = iterate s'\<rparr>]"
  using assms
proof (cases rule: body_Inr_cases)
  case (boundary s1)
  then show ?thesis
    using update_frame(1) [of opt fn i s1 s'] epoch_start_Inr(1) [of rnd opt s s1] by simp
next
  case inside
  then show ?thesis
    using update_frame(1) [of opt fn i s s'] by simp
qed


lemma body_stops:
  assumes "body rnd opt fn i s = Inl r"
  obtains (no_terms) "NumFunctions fn = 0" and "r = (Faulted ModuloByZero, s)"
    | (returned) "NumFunctions fn \<noteq> 0" and "currentFunction s mod NumFunctions fn = 0"
      and "epoch_start rnd opt s = Inl r"
    | (faulted_at_start) e s1 where "NumFunctions fn \<noteq> 0"
      and "currentFunction s mod NumFunctions fn = 0" and "epoch_start rnd opt s = Inr s1"
      and "update opt fn i s1 = Inl e" and "r = (Faulted e, s1)"
    | (faulted_inside) e where "NumFunctions fn \<noteq> 0"
      and "currentFunction s mod NumFunctions fn \<noteq> 0"
      and "update opt fn i s = Inl e" and "r = (Faulted e, s)"
  using assms by (auto simp: body_def split: if_splits sum.splits)

lemma in_order_step:
  assumes ns: "\<not> shuffle opt" and b: "body rnd opt fn i s = Inr s'" and inv: "in_order fn s"
  shows "in_order fn (s'\<lparr>currentFunction := currentFunction s' + 1\<rparr>)"
  using b
proof (cases rule: body_Inr_cases)
  case (boundary s1)
  let ?n = "unat (NumFunctions fn)"
  have n: "?n \<noteq> 0"
    using boundary(1) by (simp add: unat_eq_zero)
  have zero: "length (calls s) mod ?n = 0"
    using inv boundary(2) by (simp add: in_order_def mod_zero_unat)
  have sel: "selected opt s1 = 0"
    using ns epoch_start_Inr(2) [OF boundary(3)] by (simp add: selected_def)
  have c: "calls s' = calls s @ [\<lparr>counter = i, index = 0, evaluated_at = iterate s'\<rparr>]"
    using update_frame(1) [OF boundary(4)] epoch_start_Inr(1) [OF boundary(3)] sel by simp
  have cf: "currentFunction s' = 0"
    using update_frame(2) [OF boundary(4)] epoch_start_Inr(2) [OF boundary(3)] by simp
  have "Suc (length (calls s)) mod ?n = Suc 0 mod ?n"
    using zero by (metis mod_Suc_eq)
  moreover have "Suc 0 \<le> ?n"
    using n by simp
  ultimately show ?thesis
    using inv zero by (simp add: in_order_def c cf)
next
  case inside
  let ?n = "unat (NumFunctions fn)"
  let ?c = "unat (currentFunction s)"
  have "?c mod ?n \<noteq> 0"
    using inside(2) by (simp add: mod_zero_unat)
  then have "?c \<noteq> ?n" and "?c \<noteq> 0"
    by (metis mod_self, metis mod_0)
  then have lt: "?c < ?n"
    using inv by (simp add: in_order_def)
  have len: "length (calls s) mod ?n = ?c"
    using inv lt by (simp add: in_order_def)
  have sel: "selected opt s = currentFunction s"
    using ns by (simp add: selected_def)
  have c: "calls s' = calls s @ [\<lparr>counter = i, index = currentFunction s, evaluated_at = iterate s'\<rparr>]"
    using update_frame(1) [OF inside(3)] sel by simp
  have cf: "currentFunction s' = currentFunction s"
    using update_frame(2) [OF inside(3)] by simp
  have suc: "unat (currentFunction s + 1) = Suc ?c"
    using lt by (rule unat_succ_less)
  have "Suc (length (calls s)) mod ?n = Suc ?c mod ?n"
    using len by (metis mod_Suc_eq)
  then show ?thesis
    using inv lt len suc by (simp add: in_order_def c cf)
qed

lemma in_order_loop:
  assumes "\<not> shuffle opt" and "in_order fn s"
  shows "in_order fn (snd (loop rnd opt fn i s))"
proof (rule loop_rule [where I = "\<lambda>i s. in_order fn s" and Q = "\<lambda>r. in_order fn (snd r)"])
  show "in_order fn s" by fact
next
  fix i s s'
  assume "in_order fn s" and "body rnd opt fn i s = Inr s'"
  then show "in_order fn (s'\<lparr>currentFunction := currentFunction s' + 1\<rparr>)"
    using assms(1) in_order_step by blast
next
  fix i s
  assume "in_order fn s"
  then show "in_order fn (snd (Returned IterationLimit (full_objective fn (iterate s)),
      s\<lparr>overallObjective := full_objective fn (iterate s)\<rparr>))"
    by (simp add: in_order_def)
next
  fix i s r
  assume inv: "in_order fn s" and b: "body rnd opt fn i s = Inl r"
  from b show "in_order fn (snd r)"
  proof (cases rule: body_stops)
    case no_terms
    then show ?thesis using inv by simp
  next
    case returned
    then show ?thesis using inv epoch_start_Inl(1) [OF returned(3)] by simp
  next
    case (faulted_at_start e s1)
    have "length (calls s) mod unat (NumFunctions fn) = 0"
      using inv faulted_at_start(2) by (simp add: in_order_def mod_zero_unat)
    then show ?thesis
      using inv faulted_at_start(5) epoch_start_Inr(1,2) [OF faulted_at_start(3)]
      by (simp add: in_order_def)
  next
    case (faulted_inside e)
    then show ?thesis using inv by simp
  qed
qed

subsection \<open>The iteration budget and the loop counter\<close>

lemma unat_succ_bounded:
  fixes a b :: size_t
  assumes "unat a \<le> unat b" and "a \<noteq> b"
  shows "unat (a + 1) = Suc (unat a)" and "unat (a + 1) \<le> unat b"
proof -
  have "unat a \<noteq> unat b"
    using assms(2) by (simp add: word_unat_eq_iff)
  then have lt: "unat a < unat b"
    using assms(1) by simp
  then show "unat (a + 1) = Suc (unat a)"
    by (rule unat_succ_less)
  then show "unat (a + 1) \<le> unat b"
    using lt by simp
qed

lemma body_stops_reason:
  assumes "body rnd opt fn i s = Inl r"
  shows "fst r \<noteq> Returned IterationLimit val" and "length (calls (snd r)) = length (calls s)"
  using assms
  by (cases rule: body_stops; auto dest: epoch_start_Inl epoch_start_Inr(1))+

text \<open>Within the budget: the loop counter is one more than the number of steps made.\<close>

lemma loop_budget:
  assumes "maxIterations opt \<noteq> 0" and "unat i = Suc (length (calls s))"
    and "unat i \<le> unat (maxIterations opt)"
  shows "length (calls (snd (loop rnd opt fn i s))) \<le> unat (maxIterations opt) - 1 \<and>
         (\<forall>val. fst (loop rnd opt fn i s) = Returned IterationLimit val \<longrightarrow>
            length (calls (snd (loop rnd opt fn i s))) = unat (maxIterations opt) - 1 \<and>
            val = full_objective fn (iterate (snd (loop rnd opt fn i s))))"
proof (rule loop_rule [where
      I = "\<lambda>i s. unat i = Suc (length (calls s)) \<and> unat i \<le> unat (maxIterations opt)" and
      Q = "\<lambda>r. length (calls (snd r)) \<le> unat (maxIterations opt) - 1 \<and>
         (\<forall>val. fst r = Returned IterationLimit val \<longrightarrow>
            length (calls (snd r)) = unat (maxIterations opt) - 1 \<and>
            val = full_objective fn (iterate (snd r)))"])
  show "unat i = Suc (length (calls s)) \<and> unat i \<le> unat (maxIterations opt)"
    using assms by simp
next
  fix i s s'
  assume inv: "unat i = Suc (length (calls s)) \<and> unat i \<le> unat (maxIterations opt)"
    and ne: "i \<noteq> maxIterations opt" and b: "body rnd opt fn i s = Inr s'"
  obtain j where "calls s' = calls s @ [\<lparr>counter = i, index = j, evaluated_at = iterate s'\<rparr>]"
    using body_Inr_calls [OF b] by blast
  then show "unat (i + 1) = Suc (length (calls (s'\<lparr>currentFunction := currentFunction s' + 1\<rparr>))) \<and>
      unat (i + 1) \<le> unat (maxIterations opt)"
    using inv unat_succ_bounded [of i "maxIterations opt"] ne by simp
next
  fix i s
  assume "unat i = Suc (length (calls s)) \<and> unat i \<le> unat (maxIterations opt)"
    and "i = maxIterations opt"
  then show "length (calls (snd (Returned IterationLimit (full_objective fn (iterate s)),
                 s\<lparr>overallObjective := full_objective fn (iterate s)\<rparr>))) \<le> unat (maxIterations opt) - 1 \<and>
         (\<forall>val. fst (Returned IterationLimit (full_objective fn (iterate s)),
                 s\<lparr>overallObjective := full_objective fn (iterate s)\<rparr>) = Returned IterationLimit val \<longrightarrow>
            length (calls (snd (Returned IterationLimit (full_objective fn (iterate s)),
                 s\<lparr>overallObjective := full_objective fn (iterate s)\<rparr>))) = unat (maxIterations opt) - 1 \<and>
            val = full_objective fn (iterate (snd (Returned IterationLimit (full_objective fn (iterate s)),
                 s\<lparr>overallObjective := full_objective fn (iterate s)\<rparr>))))"
    by auto
next
  fix i s r
  assume inv: "unat i = Suc (length (calls s)) \<and> unat i \<le> unat (maxIterations opt)"
    and b: "body rnd opt fn i s = Inl r"
  show "length (calls (snd r)) \<le> unat (maxIterations opt) - 1 \<and>
         (\<forall>val. fst r = Returned IterationLimit val \<longrightarrow>
            length (calls (snd r)) = unat (maxIterations opt) - 1 \<and>
            val = full_objective fn (iterate (snd r)))"
    using inv body_stops_reason [OF b] by auto
qed

text \<open>The loop counter of a step is never zero.\<close>

lemma loop_counter_nonzero:
  assumes "maxIterations opt \<noteq> 0 \<longrightarrow> unat i \<le> unat (maxIterations opt)"
    and "i = 0 \<longrightarrow> maxIterations opt = 0"
    and "\<forall>c \<in> set (calls s). counter c \<noteq> 0"
  shows "\<forall>c \<in> set (calls (snd (loop rnd opt fn i s))). counter c \<noteq> 0"
proof (rule loop_rule [where
      I = "\<lambda>i s. (maxIterations opt \<noteq> 0 \<longrightarrow> unat i \<le> unat (maxIterations opt)) \<and>
                  (i = 0 \<longrightarrow> maxIterations opt = 0) \<and> (\<forall>c \<in> set (calls s). counter c \<noteq> 0)" and
      Q = "\<lambda>r. \<forall>c \<in> set (calls (snd r)). counter c \<noteq> 0"])
  show "(maxIterations opt \<noteq> 0 \<longrightarrow> unat i \<le> unat (maxIterations opt)) \<and>
        (i = 0 \<longrightarrow> maxIterations opt = 0) \<and> (\<forall>c \<in> set (calls s). counter c \<noteq> 0)"
    using assms by simp
next
  fix i s s'
  assume inv: "(maxIterations opt \<noteq> 0 \<longrightarrow> unat i \<le> unat (maxIterations opt)) \<and>
        (i = 0 \<longrightarrow> maxIterations opt = 0) \<and> (\<forall>c \<in> set (calls s). counter c \<noteq> 0)"
    and ne: "i \<noteq> maxIterations opt" and b: "body rnd opt fn i s = Inr s'"
  obtain j where c: "calls s' = calls s @ [\<lparr>counter = i, index = j, evaluated_at = iterate s'\<rparr>]"
    using body_Inr_calls [OF b] by blast
  have i0: "i \<noteq> 0"
    using inv ne by auto
  have "maxIterations opt \<noteq> 0 \<Longrightarrow> unat (i + 1) \<le> unat (maxIterations opt) \<and> i + 1 \<noteq> 0"
    using inv ne unat_succ_bounded [of i "maxIterations opt"] by (auto simp: unat_eq_zero [symmetric] simp del: unat_eq_zero)
  then show "(maxIterations opt \<noteq> 0 \<longrightarrow> unat (i + 1) \<le> unat (maxIterations opt)) \<and>
        (i + 1 = 0 \<longrightarrow> maxIterations opt = 0) \<and>
        (\<forall>c \<in> set (calls (s'\<lparr>currentFunction := currentFunction s' + 1\<rparr>)). counter c \<noteq> 0)"
    using inv i0 c by auto
next
  fix i s
  assume "(maxIterations opt \<noteq> 0 \<longrightarrow> unat i \<le> unat (maxIterations opt)) \<and>
        (i = 0 \<longrightarrow> maxIterations opt = 0) \<and> (\<forall>c \<in> set (calls s). counter c \<noteq> 0)"
  then show "\<forall>c \<in> set (calls (snd (Returned IterationLimit (full_objective fn (iterate s)),
                 s\<lparr>overallObjective := full_objective fn (iterate s)\<rparr>))). counter c \<noteq> 0"
    by simp
next
  fix i s r
  assume "(maxIterations opt \<noteq> 0 \<longrightarrow> unat i \<le> unat (maxIterations opt)) \<and>
        (i = 0 \<longrightarrow> maxIterations opt = 0) \<and> (\<forall>c \<in> set (calls s). counter c \<noteq> 0)"
    and b: "body rnd opt fn i s = Inl r"
  then show "\<forall>c \<in> set (calls (snd r)). counter c \<noteq> 0"
    using body_Inl(1) [OF b] by simp
qed

lemma bias_correction_positive:
  assumes "0 \<le> b" and "b < 1" and "t \<noteq> 0"
  shows "Finite 0 < Finite 1 - pow (Finite b) t"
proof -
  have n: "0 < unat t"
    using assms(3) by (simp add: unat_gt_0)
  then have lt: "b ^ unat t < 1"
    using assms(1,2) by (simp add: power_less_one_iff)
  have ge: "0 \<le> b ^ unat t"
    using assms(1) by simp
  have "pow (Finite b) t = Finite (b ^ unat t)"
    using n lt ge by (simp add: pow_def pow_nat_def)
  moreover have "Finite 1 - Finite (b ^ unat t) = Finite (1 - b ^ unat t)"
    using lt ge by (simp add: minus_double_def)
  ultimately show ?thesis
    using lt by simp
qed

subsection \<open>The objective accumulated over an epoch\<close>

lemma interleaved_sum_snoc:
  "interleaved_sum fn (cs @ [c]) = interleaved_sum fn cs + Evaluate fn (evaluated_at c) (index c)"
  by (simp add: interleaved_sum_def)

lemma in_epoch_step:
  assumes s0: "currentFunction s0 = 0" and b: "body rnd opt fn i s = Inr s'"
    and inv: "in_epoch fn s0 s"
  shows "in_epoch fn s0 (s'\<lparr>currentFunction := currentFunction s' + 1\<rparr>)"
  using b
proof (cases rule: body_Inr_cases)
  case (boundary s1)
  have n: "1 \<le> unat (NumFunctions fn)"
    using boundary(1) by (simp add: unat_eq_zero Suc_le_eq unat_gt_0)
  have c: "calls s' = calls s @ [\<lparr>counter = i, index = selected opt s1, evaluated_at = iterate s'\<rparr>]"
    using update_frame(1) [OF boundary(4)] epoch_start_Inr(1) [OF boundary(3)] by simp
  have cf: "currentFunction s' = 0"
    using update_frame(2) [OF boundary(4)] epoch_start_Inr(2) [OF boundary(3)] by simp
  have "overallObjective s' = Finite 0 + Evaluate fn (iterate s') (selected opt s1)"
    using update_frame(6) [OF boundary(4)] epoch_start_Inr(3) [OF boundary(3)] by simp
  then show ?thesis
    using n by (simp add: in_epoch_def c cf last_calls_def interleaved_sum_def)
next
  case inside
  let ?n = "unat (NumFunctions fn)"
  let ?c = "unat (currentFunction s)"
  have "s \<noteq> s0"
    using inside(2) s0 by auto
  then have inv': "1 \<le> ?c" "?c \<le> ?n" "?c \<le> length (calls s)"
      "overallObjective s = interleaved_sum fn (last_calls ?c s)"
    using inv by (simp_all add: in_epoch_def)
  have "?c mod ?n \<noteq> 0"
    using inside(2) by (simp add: mod_zero_unat)
  then have "?c \<noteq> ?n"
    by (metis mod_self)
  then have lt: "?c < ?n"
    using inv'(2) by simp
  have suc: "unat (currentFunction s + 1) = Suc ?c"
    using lt by (rule unat_succ_less)
  have c: "calls s' = calls s @ [\<lparr>counter = i, index = selected opt s, evaluated_at = iterate s'\<rparr>]"
    using update_frame(1) [OF inside(3)] by simp
  have cf: "currentFunction s' = currentFunction s"
    using update_frame(2) [OF inside(3)] by simp
  have agg: "overallObjective s' = overallObjective s + Evaluate fn (iterate s') (selected opt s)"
    using update_frame(6) [OF inside(3)] by simp
  have "Suc (length (calls s)) - Suc ?c = length (calls s) - ?c"
    by simp
  then have "last_calls (Suc ?c) (s'\<lparr>currentFunction := currentFunction s' + 1\<rparr>) =
      last_calls ?c s @ [\<lparr>counter = i, index = selected opt s, evaluated_at = iterate s'\<rparr>]"
    using inv'(3) by (simp add: last_calls_def c)
  then show ?thesis
    using inv' lt suc agg by (simp add: in_epoch_def cf c interleaved_sum_snoc)
qed

text \<open>
  A return within tolerance happens either at the first check, in the state on entry to the
  loop, or at the end of an epoch of \<open>NumFunctions\<close> steps, with the sum of their term values.
\<close>

lemma loop_converged:
  assumes s0: "currentFunction s0 = 0" and inv: "in_epoch fn s0 s"
  shows "\<forall>val. fst (loop rnd opt fn i s) = Returned Converged val \<longrightarrow>
           snd (loop rnd opt fn i s) = s0 \<and>
             epoch_start rnd opt s0 = Inl (Returned Converged val, s0) \<or>
           unat (NumFunctions fn) \<le> length (calls (snd (loop rnd opt fn i s))) \<and>
             val = interleaved_sum fn
                     (last_calls (unat (NumFunctions fn)) (snd (loop rnd opt fn i s)))"
proof (rule loop_rule [where I = "\<lambda>i s. in_epoch fn s0 s" and
      Q = "\<lambda>r. \<forall>val. fst r = Returned Converged val \<longrightarrow>
           snd r = s0 \<and> epoch_start rnd opt s0 = Inl (Returned Converged val, s0) \<or>
           unat (NumFunctions fn) \<le> length (calls (snd r)) \<and>
             val = interleaved_sum fn (last_calls (unat (NumFunctions fn)) (snd r))"])
  show "in_epoch fn s0 s" by fact
next
  fix i s s'
  assume "in_epoch fn s0 s" and "body rnd opt fn i s = Inr s'"
  then show "in_epoch fn s0 (s'\<lparr>currentFunction := currentFunction s' + 1\<rparr>)"
    using s0 in_epoch_step by blast
next
  fix i s
  show "\<forall>val. fst (Returned IterationLimit (full_objective fn (iterate s)),
                 s\<lparr>overallObjective := full_objective fn (iterate s)\<rparr>) = Returned Converged val \<longrightarrow>
           snd (Returned IterationLimit (full_objective fn (iterate s)),
                 s\<lparr>overallObjective := full_objective fn (iterate s)\<rparr>) = s0 \<and>
             epoch_start rnd opt s0 = Inl (Returned Converged val, s0) \<or>
           unat (NumFunctions fn) \<le> length (calls (snd (Returned IterationLimit (full_objective fn (iterate s)),
                 s\<lparr>overallObjective := full_objective fn (iterate s)\<rparr>))) \<and>
             val = interleaved_sum fn (last_calls (unat (NumFunctions fn)) (snd (Returned IterationLimit (full_objective fn (iterate s)),
                 s\<lparr>overallObjective := full_objective fn (iterate s)\<rparr>)))"
    by simp
next
  fix i s r
  assume inv: "in_epoch fn s0 s" and b: "body rnd opt fn i s = Inl r"
  from b show "\<forall>val. fst r = Returned Converged val \<longrightarrow>
           snd r = s0 \<and> epoch_start rnd opt s0 = Inl (Returned Converged val, s0) \<or>
           unat (NumFunctions fn) \<le> length (calls (snd r)) \<and>
             val = interleaved_sum fn (last_calls (unat (NumFunctions fn)) (snd r))"
  proof (cases rule: body_stops)
    case no_terms
    then show ?thesis by simp
  next
    case returned
    let ?n = "unat (NumFunctions fn)"
    let ?c = "unat (currentFunction s)"
    show ?thesis
    proof (intro allI impI)
      fix val
      assume conv: "fst r = Returned Converged val"
      have r: "r = (Returned Converged val, s)"
        using conv epoch_start_Inl(1) [OF returned(3)] by (cases r) simp
      have val: "val = overallObjective s"
        using conv epoch_start_Inl(2) [OF returned(3)] by auto
      show "snd r = s0 \<and> epoch_start rnd opt s0 = Inl (Returned Converged val, s0) \<or>
           ?n \<le> length (calls (snd r)) \<and> val = interleaved_sum fn (last_calls ?n (snd r))"
      proof (cases "s = s0")
        case True
        then show ?thesis
          using returned(3) r by simp
      next
        case False
        then have inv': "1 \<le> ?c" "?c \<le> ?n" "?c \<le> length (calls s)"
            "overallObjective s = interleaved_sum fn (last_calls ?c s)"
          using inv by (simp_all add: in_epoch_def)
        have "?c mod ?n = 0"
          using returned(2) by (simp add: mod_zero_unat)
        then have "?c = ?n"
          using inv'(1,2) by (metis le_neq_implies_less mod_less not_one_le_zero)
        then show ?thesis
          using inv' r val by simp
      qed
    qed
  next
    case (faulted_at_start e s1)
    then show ?thesis by simp
  next
    case (faulted_inside e)
    then show ?thesis by simp
  qed
qed

lemma not_within:
  assumes "tol \<le> x"
  shows "\<not> dabs x < tol"
  using assms by (cases x; cases tol) auto

lemma first_check_passes:
  assumes "\<not> isnan a" and "\<not> isinf a" and "tol \<le> DBL_MAX - a"
  shows "\<not> dabs (DBL_MAX - a) < tol"
  using assms(3) by (rule not_within)

lemma nonfinite_absorbs:
  assumes "isnan a \<or> isinf a"
  shows "isnan (a + b) \<or> isinf (a + b)"
  using assms by (cases a; cases b) (auto simp: isnan_def isinf_def)

subsection \<open>The moment estimates are never negative\<close>












subsection \<open>No fault under the preconditions\<close>

lemma epoch_start_order:
  assumes "epoch_start rnd opt s = Inr s1"
  shows "visitationOrder s1 =
           (if shuffle opt then rnd (draws s) (visitationOrder s) else visitationOrder s)"
  using assms by (auto simp: epoch_start_def split: if_splits)

lemma update_Inl:
  assumes "update opt fn i s = Inl e"
  shows "shuffle opt \<and> length (visitationOrder s) \<le> unat (currentFunction s) \<or>
         length (Gradient fn (iterate s) (selected opt s)) \<noteq> length (iterate s)"
  using assms by (auto simp: update_def Let_def split: if_splits)

text \<open>
  When the objective has a term, its gradients have the shape of the iterate and a shuffled
  order has the length of the order, the loop ends in one of the three \<open>return\<close> statements.
\<close>

lemma loop_returns:
  assumes n: "NumFunctions fn \<noteq> 0"
    and g: "\<forall>y j. length (Gradient fn y j) = length y"
    and r: "\<forall>k xs. length (rnd k xs) = length xs"
    and pos: "unat (currentFunction s) \<le> unat (NumFunctions fn)"
    and ord: "shuffle opt \<longrightarrow> length (visitationOrder s) = unat (NumFunctions fn)"
  shows "\<exists>why val. fst (loop rnd opt fn i s) = Returned why val"
proof (rule loop_rule [where
      I = "\<lambda>i s. unat (currentFunction s) \<le> unat (NumFunctions fn) \<and>
                  (shuffle opt \<longrightarrow> length (visitationOrder s) = unat (NumFunctions fn))" and
      Q = "\<lambda>r. \<exists>why val. fst r = Returned why val"])
  let ?n = "unat (NumFunctions fn)"
  have n1: "1 \<le> ?n"
    using n by (simp add: Suc_le_eq unat_gt_0)
  show "unat (currentFunction s) \<le> ?n \<and> (shuffle opt \<longrightarrow> length (visitationOrder s) = ?n)"
    using pos ord by simp
  {
    fix i s s'
    assume inv: "unat (currentFunction s) \<le> ?n \<and> (shuffle opt \<longrightarrow> length (visitationOrder s) = ?n)"
      and b: "body rnd opt fn i s = Inr s'"
    from b show "unat (currentFunction (s'\<lparr>currentFunction := currentFunction s' + 1\<rparr>)) \<le> ?n \<and>
        (shuffle opt \<longrightarrow> length (visitationOrder (s'\<lparr>currentFunction := currentFunction s' + 1\<rparr>)) = ?n)"
    proof (cases rule: body_Inr_cases)
      case (boundary s1)
      have "currentFunction s' = 0"
        using update_frame(2) [OF boundary(4)] epoch_start_Inr(2) [OF boundary(3)] by simp
      moreover have "visitationOrder s' =
          (if shuffle opt then rnd (draws s) (visitationOrder s) else visitationOrder s)"
        using update_frame(4) [OF boundary(4)] epoch_start_order [OF boundary(3)] by simp
      ultimately show ?thesis
        using inv n1 r by simp
    next
      case inside
      have "unat (currentFunction s) mod ?n \<noteq> 0"
        using inside(2) by (simp add: mod_zero_unat)
      then have "unat (currentFunction s) \<noteq> ?n"
        by (metis mod_self)
      then have lt: "unat (currentFunction s) < ?n"
        using inv by simp
      have "unat (currentFunction s + 1) = Suc (unat (currentFunction s))"
        using lt by (rule unat_succ_less)
      then show ?thesis
        using inv lt update_frame(2,4) [OF inside(3)] by simp
    qed
  }
  {
    fix i s
    show "\<exists>why val. fst (Returned IterationLimit (full_objective fn (iterate s)),
        s\<lparr>overallObjective := full_objective fn (iterate s)\<rparr>) = Returned why val"
      by simp
  }
  {
    fix i s r
    assume inv: "unat (currentFunction s) \<le> ?n \<and> (shuffle opt \<longrightarrow> length (visitationOrder s) = ?n)"
      and b: "body rnd opt fn i s = Inl r"
    from b show "\<exists>why val. fst r = Returned why val"
    proof (cases rule: body_stops)
      case no_terms
      then show ?thesis using n by simp
    next
      case returned
      then show ?thesis using epoch_start_Inl(2) [OF returned(3)] by auto
    next
      case (faulted_at_start e s1)
      have "currentFunction s1 = 0"
        using epoch_start_Inr(2) [OF faulted_at_start(3)] .
      moreover have "shuffle opt \<longrightarrow> length (visitationOrder s1) = ?n"
        using epoch_start_order [OF faulted_at_start(3)] inv r by simp
      ultimately show ?thesis
        using update_Inl [OF faulted_at_start(4)] g n1 by auto
    next
      case (faulted_inside e)
      have "unat (currentFunction s) mod ?n \<noteq> 0"
        using faulted_inside(2) by (simp add: mod_zero_unat)
      then have "unat (currentFunction s) \<noteq> ?n"
        by (metis mod_self)
      then have "unat (currentFunction s) < ?n"
        using inv by simp
      then show ?thesis
        using update_Inl [OF faulted_inside(3)] g inv by auto
    qed
  }
qed

lemma length_linspace: "length (linspace n) = unat n"
  by (simp add: linspace_def)

subsection \<open>Evaluating the model on concrete inputs\<close>

lemmas eval_defs = update_def selected_def Let_def mat_times_def mat_plus_scalar_def mat_plus_def
  mat_minus_def mat_schur_def mat_div_def mat_max_def mat_abs_def mat_sqrt_def pow_def pow_nat_def
  dneq_def dmax_def minus_double_def initial_def full_objective_def zeros_def linspace_def
  inf_of_def isnan_def isinf_def epoch_start_def body_def no_shuffle_def square_fn_def

lemma sqrt_9: "sqrt 9 = 3"
  using real_sqrt_abs [of 3] by simp

lemma sqrt_quarter: "sqrt (1 / 4) = 1 / 2"
  using real_sqrt_abs [of "1 / 2"] by (simp add: power2_eq_square)

lemma dabs_not_less_zero: "\<not> dabs x < Finite 0"
  by (cases x) auto

lemma upt_2: "[0..<2] = [0, 1]"
  by (simp add: eval_nat_numeral)

lemma upt_5: "[0..<5] = [0, 1, 2, 3, 4]"
  by (simp add: eval_nat_numeral)

lemmas run_defs = eval_defs Optimize_def loop.simps dabs_not_less_zero upt_2 upt_5 power_divide

lemma recip_run:
  "Optimize no_shuffle recip_cfg recip_fn [Finite (- 1)] = (Returned Diverged NaN, recip_end)"
  by (simp add: run_defs recip_cfg_def recip_fn_def recip_end_def recip_after_two_def)

lemma recip_second_step: "update recip_cfg recip_fn 2 recip_mid = Inr recip_after_two"
  by (simp add: eval_defs power_divide recip_cfg_def recip_fn_def recip_mid_def recip_after_two_def)



lemma decay_step: "update adamax_cfg two_term_fn 2 decay_before = Inr decay_after"
  by (simp add: eval_defs power_divide adamax_cfg_def two_term_fn_def decay_before_def decay_after_def)

lemma five_run:
  "map index (calls (snd (Optimize no_shuffle five_cfg five_fn [Finite 0]))) =
     [0, 1, 2, 3, 4, 0, 1, 2, 3, 4]"
  by (simp add: run_defs five_cfg_def five_fn_def)

lemma first_check_at_minimum: "\<not> dabs (DBL_MAX + Finite 0) < Finite (1 / 1000)"
  by (simp add: near_DBL_MAX)

lemma tolerant_run:
  "Optimize no_shuffle tolerant_cfg square_fn [Finite 3] = (Returned Converged (Finite 0), at_minimum)"
  by (simp add: run_defs tolerant_cfg_def at_minimum_def first_check_at_minimum)



lemma adam_run:
  "Optimize no_shuffle adam_cfg square_fn [Finite 0] = (Returned IterationLimit (Finite (81 / 16)), adam_end)"
  by (simp add: run_defs adam_cfg_def adam_end_def sqrt_9 sqrt_quarter)






lemma five_limit:
  "fst (Optimize no_shuffle five_cfg five_fn [Finite 0]) =
     Returned IterationLimit (Finite (- (45466036534 / 923419413)))"
  "length (calls (snd (Optimize no_shuffle five_cfg five_fn [Finite 0]))) = 10"
  by (simp_all add: run_defs five_cfg_def five_fn_def)

section \<open>The claims\<close>








text \<open>
  C4. At the start of an epoch a NaN or infinite objective makes \<open>Optimize\<close> return that
  objective at once, in the state it had: no gradient, no update, and whatever the tolerance.
  Inside an epoch the objective is not looked at: the update is made and the loop goes on; an
  objective that is NaN or infinite stays so when a term value is added, until the next
  start of an epoch.
\<close>

theorem divergence_check:
  assumes "i \<noteq> maxIterations opt" and "NumFunctions fn \<noteq> 0"
  shows "(currentFunction s mod NumFunctions fn = 0 \<and>
            (isnan (overallObjective s) \<or> isinf (overallObjective s)) \<longrightarrow>
            loop rnd opt fn i s = (Returned Diverged (overallObjective s), s)) \<and>
         (currentFunction s mod NumFunctions fn \<noteq> 0 \<longrightarrow>
            (\<forall>s'. update opt fn i s = Inr s' \<longrightarrow>
               loop rnd opt fn i s =
                 loop rnd opt fn (i + 1) (s'\<lparr>currentFunction := currentFunction s' + 1\<rparr>) \<and>
               (isnan (overallObjective s) \<or> isinf (overallObjective s) \<longrightarrow>
                  isnan (overallObjective s') \<or> isinf (overallObjective s'))))"
proof (intro conjI impI allI)
  assume "currentFunction s mod NumFunctions fn = 0 \<and>
            (isnan (overallObjective s) \<or> isinf (overallObjective s))"
  then have "body rnd opt fn i s = Inl (Returned Diverged (overallObjective s), s)"
    using assms(2) by (simp add: body_def epoch_start_def)
  then show "loop rnd opt fn i s = (Returned Diverged (overallObjective s), s)"
    using assms(1) by (rule loop_early [rotated])
next
  fix s'
  assume inside: "currentFunction s mod NumFunctions fn \<noteq> 0" and step: "update opt fn i s = Inr s'"
  have "body rnd opt fn i s = Inr s'"
    using assms(2) inside step by (simp add: body_def)
  then show "loop rnd opt fn i s =
      loop rnd opt fn (i + 1) (s'\<lparr>currentFunction := currentFunction s' + 1\<rparr>)"
    using assms(1) by (rule loop_continue [rotated])
next
  fix s'
  assume step: "update opt fn i s = Inr s'"
    and bad: "isnan (overallObjective s) \<or> isinf (overallObjective s)"
  show "isnan (overallObjective s') \<or> isinf (overallObjective s')"
    using nonfinite_absorbs [OF bad] update_frame(6) [OF step] by simp
qed

theorem divergence_check_witness:
  "(3 :: size_t) \<noteq> maxIterations recip_cfg \<and> (2 :: size_t) \<noteq> maxIterations recip_cfg \<and>
   NumFunctions recip_fn \<noteq> 0 \<and>
   currentFunction recip_end mod NumFunctions recip_fn = 0 \<and> isnan (overallObjective recip_end) \<and>
   loop no_shuffle recip_cfg recip_fn 3 recip_end = (Returned Diverged NaN, recip_end) \<and>
   currentFunction recip_mid mod NumFunctions recip_fn \<noteq> 0 \<and> isinf (overallObjective recip_mid) \<and>
   update recip_cfg recip_fn 2 recip_mid = Inr recip_after_two \<and>
   loop no_shuffle recip_cfg recip_fn 2 recip_mid = loop no_shuffle recip_cfg recip_fn 3 recip_end \<and>
   (isnan (overallObjective recip_after_two) \<or> isinf (overallObjective recip_after_two))"
proof -
  have ne: "(3 :: size_t) \<noteq> maxIterations recip_cfg" "(2 :: size_t) \<noteq> maxIterations recip_cfg"
    by (simp_all add: recip_cfg_def)
  have n: "NumFunctions recip_fn \<noteq> 0"
    by (simp add: recip_fn_def)
  have at_start: "currentFunction recip_end mod NumFunctions recip_fn = 0"
    and nan: "isnan (overallObjective recip_end)" "overallObjective recip_end = NaN"
    by (simp_all add: recip_end_def recip_after_two_def recip_fn_def isnan_def)
  have inside: "currentFunction recip_mid mod NumFunctions recip_fn \<noteq> 0"
    and inf: "isinf (overallObjective recip_mid)"
    by (simp_all add: recip_mid_def recip_fn_def isinf_def)
  have next_state: "recip_after_two\<lparr>currentFunction := currentFunction recip_after_two + 1\<rparr> = recip_end"
    by (simp add: recip_end_def recip_after_two_def)
  have returned: "loop no_shuffle recip_cfg recip_fn 3 recip_end = (Returned Diverged NaN, recip_end)"
    using divergence_check [OF ne(1) n, of recip_end no_shuffle] at_start nan by simp
  note inside_step = divergence_check [OF ne(2) n, of recip_mid no_shuffle, THEN conjunct2,
      rule_format, OF inside recip_second_step]
  have went_on: "loop no_shuffle recip_cfg recip_fn 2 recip_mid =
        loop no_shuffle recip_cfg recip_fn 3 recip_end"
    using inside_step by (simp add: next_state)
  have still: "isnan (overallObjective recip_after_two) \<or> isinf (overallObjective recip_after_two)"
    using inside_step inf by simp
  show ?thesis
    by (intro conjI ne n at_start nan(1) returned inside inf recip_second_step went_on still)
qed




text \<open>
  C6. With \<open>maxIterations \<ge> 1\<close> a call of \<open>Optimize\<close> ends (\<open>loop\<close> is a total function: the
  difference \<open>maxIterations - i\<close> decreases in every iteration), in one of its three \<open>return\<close>
  statements when the objective has a term, its gradients have the shape of the iterate and
  shuffling keeps the length of the order. It makes at most \<open>maxIterations - 1\<close> update steps.
  When it returns through neither the divergence nor the convergence branch it has made
  exactly \<open>maxIterations - 1\<close> steps, and the value returned is the sum, from zero and in the
  order \<open>0, ..., NumFunctions - 1\<close>, of \<open>Evaluate\<close> of every term at the final iterate.
\<close>

theorem iteration_limit:
  assumes "1 \<le> unat (maxIterations opt)"
  shows "(NumFunctions fn \<noteq> 0 \<and> (\<forall>y j. length (Gradient fn y j) = length y) \<and>
            (\<forall>k xs. length (rnd k xs) = length xs) \<longrightarrow>
            (\<exists>why val. fst (Optimize rnd opt fn x) = Returned why val)) \<and>
         length (calls (snd (Optimize rnd opt fn x))) \<le> unat (maxIterations opt) - 1 \<and>
         (\<forall>val. fst (Optimize rnd opt fn x) = Returned IterationLimit val \<longrightarrow>
            length (calls (snd (Optimize rnd opt fn x))) = unat (maxIterations opt) - 1 \<and>
            val = foldl (\<lambda>acc j. acc + Evaluate fn (iterate (snd (Optimize rnd opt fn x))) (of_nat j))
                    (Finite 0) [0..<unat (NumFunctions fn)])"
proof -
  have "\<exists>why val. fst (Optimize rnd opt fn x) = Returned why val"
    if "NumFunctions fn \<noteq> 0" and "\<forall>y j. length (Gradient fn y j) = length y"
      and "\<forall>k xs. length (rnd k xs) = length xs"
    unfolding Optimize_def using that
    by (rule loop_returns) (simp_all add: initial_def length_linspace that(3))
  moreover have "maxIterations opt \<noteq> 0"
    using assms by (auto simp: unat_eq_zero [symmetric] simp del: unat_eq_zero)
  moreover have "unat (1 :: size_t) = Suc (length (calls (initial rnd opt fn x)))"
    by (simp add: initial_def)
  moreover have "unat (1 :: size_t) \<le> unat (maxIterations opt)"
    using assms by simp
  ultimately show ?thesis
    unfolding Optimize_def
    using loop_budget [of opt 1 "initial rnd opt fn x" rnd fn]
    by (simp only: full_objective_def) blast
qed

theorem iteration_limit_witness:
  "1 \<le> unat (maxIterations five_cfg) \<and> NumFunctions five_fn = 5 \<and>
   (\<forall>y j. length (Gradient five_fn y j) = length y) \<and>
   (\<forall>k xs. length (no_shuffle k xs) = length xs) \<and>
   (\<exists>why val. fst (Optimize no_shuffle five_cfg five_fn [Finite 0]) = Returned why val) \<and>
   fst (Optimize no_shuffle five_cfg five_fn [Finite 0]) =
     Returned IterationLimit (Finite (- (45466036534 / 923419413))) \<and>
   length (calls (snd (Optimize no_shuffle five_cfg five_fn [Finite 0]))) = 10 \<and>
   length (calls (snd (Optimize no_shuffle five_cfg five_fn [Finite 0]))) =
     unat (maxIterations five_cfg) - 1 \<and>
   Finite (- (45466036534 / 923419413)) =
     foldl (\<lambda>acc j. acc + Evaluate five_fn
                (iterate (snd (Optimize no_shuffle five_cfg five_fn [Finite 0]))) (of_nat j))
       (Finite 0) [0..<unat (NumFunctions five_fn)]"
proof -
  have budget: "1 \<le> unat (maxIterations five_cfg)"
    by (simp add: five_cfg_def)
  have shape: "NumFunctions five_fn = 5" "NumFunctions five_fn \<noteq> 0"
      "\<forall>y j. length (Gradient five_fn y j) = length y"
      "\<forall>k xs. length (no_shuffle k xs) = length xs"
    by (simp_all add: five_fn_def no_shuffle_def)
  show ?thesis
    using iteration_limit [OF budget, of five_fn no_shuffle "[Finite 0]"] budget shape five_limit
    by blast
qed

text \<open>
  C7. Without shuffling, the terms worked on by a call of \<open>Optimize\<close> are, in order,
  \<open>0, 1, ..., NumFunctions - 1\<close>, again and again: the \<open>k\<close>-th step (counted from 0) works on term
  \<open>k mod NumFunctions\<close>. The term that a step logs is \<open>currentFunction\<close>, the one whose gradient
  goes into \<open>m\<close> and whose value at the updated iterate is added to the objective.
\<close>

theorem sequential_visits:
  assumes "\<not> shuffle opt"
  shows "map index (calls (snd (Optimize rnd opt fn x))) =
           map (\<lambda>k. of_nat (k mod unat (NumFunctions fn)))
             [0..<length (calls (snd (Optimize rnd opt fn x)))] \<and>
         (\<forall>t s s'. update opt fn t s = Inr s' \<longrightarrow>
            calls s' = calls s @
              [\<lparr>counter = t, index = currentFunction s, evaluated_at = iterate s'\<rparr>] \<and>
            m s' = map2 (\<lambda>a g. beta1 opt * a + (Finite 1 - beta1 opt) * g) (m s)
                     (Gradient fn (iterate s) (currentFunction s)) \<and>
            overallObjective s' =
              overallObjective s + Evaluate fn (iterate s') (currentFunction s))"
proof (intro conjI allI impI)
  have "in_order fn (initial rnd opt fn x)"
    by (simp add: in_order_def initial_def)
  then have "in_order fn (snd (Optimize rnd opt fn x))"
    unfolding Optimize_def using assms by (rule in_order_loop [rotated])
  then show "map index (calls (snd (Optimize rnd opt fn x))) =
      map (\<lambda>k. of_nat (k mod unat (NumFunctions fn)))
        [0..<length (calls (snd (Optimize rnd opt fn x)))]"
    by (simp add: in_order_def)
next
  fix t s s'
  assume step: "update opt fn t s = Inr s'"
  have sel: "selected opt s = currentFunction s"
    using assms by (simp add: selected_def)
  show "calls s' = calls s @ [\<lparr>counter = t, index = currentFunction s, evaluated_at = iterate s'\<rparr>]"
    using update_frame(1) [OF step] by (simp only: sel)
  show "m s' = map2 (\<lambda>a g. beta1 opt * a + (Finite 1 - beta1 opt) * g) (m s)
                 (Gradient fn (iterate s) (currentFunction s))"
    using update_Inr(2) [OF step] by (simp only: first_moment_eq sel)
  show "overallObjective s' = overallObjective s + Evaluate fn (iterate s') (currentFunction s)"
    using update_frame(6) [OF step] by (simp only: sel)
qed

theorem sequential_visits_witness:
  "\<not> shuffle five_cfg \<and> NumFunctions five_fn = 5 \<and>
   map index (calls (snd (Optimize no_shuffle five_cfg five_fn [Finite 0]))) =
     [0, 1, 2, 3, 4, 0, 1, 2, 3, 4] \<and>
   map index (calls (snd (Optimize no_shuffle five_cfg five_fn [Finite 0]))) =
     map (\<lambda>k. of_nat (k mod unat (NumFunctions five_fn)))
       [0..<length (calls (snd (Optimize no_shuffle five_cfg five_fn [Finite 0])))] \<and>
   \<not> shuffle adamax_cfg \<and> currentFunction decay_before = 1 \<and>
   update adamax_cfg two_term_fn 2 decay_before = Inr decay_after \<and>
   calls decay_after = calls decay_before @
     [\<lparr>counter = 2, index = currentFunction decay_before, evaluated_at = iterate decay_after\<rparr>] \<and>
   m decay_after = map2 (\<lambda>a g. beta1 adamax_cfg * a + (Finite 1 - beta1 adamax_cfg) * g)
     (m decay_before) (Gradient two_term_fn (iterate decay_before) (currentFunction decay_before)) \<and>
   overallObjective decay_after =
     overallObjective decay_before +
       Evaluate two_term_fn (iterate decay_after) (currentFunction decay_before)"
proof -
  have plain: "\<not> shuffle five_cfg" "\<not> shuffle adamax_cfg"
    by (simp_all add: five_cfg_def adamax_cfg_def)
  have five: "NumFunctions five_fn = 5"
    by (simp add: five_fn_def)
  have pos: "currentFunction decay_before = 1"
    by (simp add: decay_before_def)
  note order = sequential_visits [OF plain(1), of no_shuffle five_fn "[Finite 0]", THEN conjunct1]
  note step = sequential_visits [OF plain(2), of no_shuffle two_term_fn "[Finite 0]",
      THEN conjunct2, rule_format, OF decay_step]
  show ?thesis
    using plain five five_run order pos decay_step step by blast
qed




text \<open>
  C9. With \<open>beta1\<close> in \<open>[0, 1)\<close> the bias correction \<open>1 - beta1^t\<close> is positive for every step
  counter \<open>t \<ge> 1\<close>, and every step of a call of \<open>Optimize\<close> has such a counter: the division by
  \<open>biasCorrection1\<close> is never a division by zero.
\<close>

theorem bias_correction_nonzero:
  assumes "beta1 opt = Finite b" and "0 \<le> b" and "b < 1"
  shows "(\<forall>t. t \<noteq> 0 \<longrightarrow> Finite 0 < Finite 1 - pow (beta1 opt) t) \<and>
         (\<forall>c \<in> set (calls (snd (Optimize rnd opt fn x))).
            counter c \<noteq> 0 \<and> Finite 1 - pow (beta1 opt) (counter c) \<noteq> Finite 0)"
proof (intro conjI allI impI ballI)
  fix t :: size_t
  assume "t \<noteq> 0"
  then show "Finite 0 < Finite 1 - pow (beta1 opt) t"
    using bias_correction_positive [OF assms(2,3)] by (simp add: assms(1))
next
  fix c
  assume c: "c \<in> set (calls (snd (Optimize rnd opt fn x)))"
  have "\<forall>c \<in> set (calls (snd (loop rnd opt fn 1 (initial rnd opt fn x)))). counter c \<noteq> 0"
  proof (rule loop_counter_nonzero)
    show "maxIterations opt \<noteq> 0 \<longrightarrow> unat (1 :: size_t) \<le> unat (maxIterations opt)"
      by (auto simp: Suc_le_eq unat_gt_0)
    show "(1 :: size_t) = 0 \<longrightarrow> maxIterations opt = 0"
      by simp
    show "\<forall>c \<in> set (calls (initial rnd opt fn x)). counter c \<noteq> 0"
      by (simp add: initial_def)
  qed
  then show nz: "counter c \<noteq> 0"
    using c by (simp add: Optimize_def)
  have "Finite 0 < Finite 1 - pow (beta1 opt) (counter c)"
    using bias_correction_positive [OF assms(2,3) nz] by (simp add: assms(1))
  then show "Finite 1 - pow (beta1 opt) (counter c) \<noteq> Finite 0"
    by auto
qed

theorem bias_correction_nonzero_witness:
  "beta1 adam_cfg = Finite (1 / 2) \<and> (0 :: real) \<le> 1 / 2 \<and> (1 / 2 :: real) < 1 \<and>
   (1 :: size_t) \<noteq> 0 \<and> Finite 0 < Finite 1 - pow (beta1 adam_cfg) 1 \<and>
   \<lparr>counter = 1, index = 0, evaluated_at = [Finite (3 / 4)]\<rparr>
     \<in> set (calls (snd (Optimize no_shuffle adam_cfg square_fn [Finite 0]))) \<and>
   Finite 1 - pow (beta1 adam_cfg) 1 \<noteq> Finite 0"
proof -
  have b: "beta1 adam_cfg = Finite (1 / 2)"
    by (simp add: adam_cfg_def)
  have logged: "\<lparr>counter = 1, index = 0, evaluated_at = [Finite (3 / 4)]\<rparr>
      \<in> set (calls (snd (Optimize no_shuffle adam_cfg square_fn [Finite 0])))"
    by (simp add: adam_run adam_end_def)
  have "(0 :: real) \<le> 1 / 2" and "(1 / 2 :: real) < 1"
    by simp_all
  from bias_correction_nonzero [OF b this, of no_shuffle square_fn "[Finite 0]"] logged b
  show ?thesis
    by fastforce
qed

text \<open>
  C10. \<open>lastObjective\<close> starts as \<open>DBL_MAX\<close>. When the initial objective is finite and the
  tolerance is at most \<open>DBL_MAX\<close> minus the initial objective, the first check returns neither
  way, and a call that returns within tolerance has made at least \<open>NumFunctions\<close> steps: a full
  epoch.
\<close>

theorem first_check_cannot_converge:
  assumes "is_finite (full_objective fn x)"
    and "tolerance opt \<le> DBL_MAX - full_objective fn x"
  shows "lastObjective (initial rnd opt fn x) = DBL_MAX \<and>
         (\<exists>s1. epoch_start rnd opt (initial rnd opt fn x) = Inr s1) \<and>
         (\<forall>val. fst (Optimize rnd opt fn x) = Returned Converged val \<longrightarrow>
            unat (NumFunctions fn) \<le> length (calls (snd (Optimize rnd opt fn x))))"
proof (intro conjI allI impI)
  let ?s0 = "initial rnd opt fn x"
  show "lastObjective ?s0 = DBL_MAX"
    by (simp add: initial_def)
  have fin: "\<not> isnan (full_objective fn x)" "\<not> isinf (full_objective fn x)"
    using assms(1) by (simp_all add: is_finite_def)
  have passes: "\<not> dabs (DBL_MAX - full_objective fn x) < tolerance opt"
    using first_check_passes [OF fin assms(2)] .
  then show goes_on: "\<exists>s1. epoch_start rnd opt ?s0 = Inr s1"
    using fin by (simp add: epoch_start_def initial_def)
  fix val
  assume conv: "fst (Optimize rnd opt fn x) = Returned Converged val"
  have "currentFunction ?s0 = 0" and "in_epoch fn ?s0 ?s0"
    by (simp_all add: initial_def in_epoch_def)
  from loop_converged [OF this, of rnd opt 1] conv
  have "snd (Optimize rnd opt fn x) = ?s0 \<and> epoch_start rnd opt ?s0 = Inl (Returned Converged val, ?s0) \<or>
        unat (NumFunctions fn) \<le> length (calls (snd (Optimize rnd opt fn x))) \<and>
        val = interleaved_sum fn (last_calls (unat (NumFunctions fn)) (snd (Optimize rnd opt fn x)))"
    by (simp add: Optimize_def)
  then show "unat (NumFunctions fn) \<le> length (calls (snd (Optimize rnd opt fn x)))"
    using goes_on by auto
qed

theorem first_check_cannot_converge_witness:
  "is_finite (full_objective square_fn [Finite 3]) \<and>
   tolerance tolerant_cfg \<le> DBL_MAX - full_objective square_fn [Finite 3] \<and>
   (\<exists>s1. epoch_start no_shuffle tolerant_cfg (initial no_shuffle tolerant_cfg square_fn [Finite 3]) = Inr s1) \<and>
   fst (Optimize no_shuffle tolerant_cfg square_fn [Finite 3]) = Returned Converged (Finite 0) \<and>
   unat (NumFunctions square_fn) \<le> length (calls (snd (Optimize no_shuffle tolerant_cfg square_fn [Finite 3])))"
proof -
  have obj: "full_objective square_fn [Finite 3] = Finite 0"
    by (simp add: full_objective_def square_fn_def minus_double_def)
  have fin: "is_finite (full_objective square_fn [Finite 3])"
    by (simp add: obj is_finite_def isnan_def isinf_def)
  have tol: "tolerance tolerant_cfg \<le> DBL_MAX - full_objective square_fn [Finite 3]"
    by (simp add: obj tolerant_cfg_def minus_double_def near_DBL_MAX)
  have conv: "fst (Optimize no_shuffle tolerant_cfg square_fn [Finite 3]) = Returned Converged (Finite 0)"
    by (simp add: tolerant_run)
  show ?thesis
    using first_check_cannot_converge [OF fin tol, of no_shuffle] fin tol conv by blast
qed

end
